theory Spec2Isabelle
  imports Main
begin

section \<open>Custodia: the request gateway of \<^verbatim>\<open>custodia/httpd/server.py\<close>\<close>

text \<open>
  The module is embedded shallowly. Python dictionaries are maps from key strings to
  values, exceptions are values of the type \<open>exn\<close>, the two loops of \<open>pipeline\<close> are
  recursive functions, and every call of a plugin's \<open>handle\<close> is recorded in a call log,
  so that which plugin ran, and in which order, can be stated.
\<close>

subsection \<open>Python values, exceptions, plugins\<close>

text \<open>
  The values a request dictionary holds; byte strings and text strings are both
  \<open>PStr\<close>. \<open>x is True\<close> holds of \<open>PBool True\<close> alone: \<open>PInt 1\<close> is
  equal to \<open>True\<close> in Python but is not the same object.
\<close>

datatype pyval =
    PNone
  | PBool bool
  | PInt int
  | PStr string
  | PList "pyval list"
  | PDict "(string \<times> pyval) list"

type_synonym request = "string \<rightharpoonup> pyval"

text \<open>
  \<open>HTTPError code\<close> is the module's own exception (its message is not modelled); the
  others are the Python exceptions the handler tells apart or lets through.
\<close>

datatype exn =
    HTTPError int
  | ValueError
  | TypeError
  | KeyError
  | SocketTimeout
  | OtherException string

text \<open>The response dictionary of a consumer: \<open>code\<close>, \<open>headers\<close>, \<open>output\<close>, each optional.\<close>

datatype out_value = FileLike string | Printable string

record response =
  resp_code :: "int option"
  resp_headers :: "(string \<times> string) list option"
  resp_output :: "out_value option"

text \<open>
  An authenticator's \<open>handle(request)\<close> mutates the request in place and may raise: it
  maps the request to the exception it raised, if any, and the request as it left it.
  A consumer's \<open>handle(request)\<close> returns a response dictionary or \<open>None\<close>, or raises.
\<close>

type_synonym authenticator = "request \<Rightarrow> exn option \<times> request"
type_synonym consumer = "request \<Rightarrow> exn + response option"

text \<open>The registry key of the plugin whose \<open>handle\<close> was called.\<close>

datatype call = AuthHandle string | ConsumerHandle string

text \<open>
  The configuration dictionary: \<open>None\<close> is a missing key. The authenticators are
  kept in the iteration order of the dictionary.
\<close>

record config =
  consumers :: "(string \<rightharpoonup> consumer) option"
  authenticators :: "(string \<times> authenticator) list option"
  server_string :: "string option"

record server =
  srv_config :: config
  srv_server_string :: string

subsection \<open>\<open>os.path.isabs\<close> and \<open>os.path.split\<close> (posixpath)\<close>

definition sep :: char where
  "sep = CHR ''/''"

text \<open>\<^verbatim>\<open>return s.startswith('/')\<close>\<close>

definition os_path_isabs :: "string \<Rightarrow> bool" where
  "os_path_isabs s = (case s of [] \<Rightarrow> False | c # _ \<Rightarrow> c = sep)"

text \<open>\<^verbatim>\<open>head.rstrip('/')\<close>\<close>

definition rstrip_sep :: "string \<Rightarrow> string" where
  "rstrip_sep s = rev (dropWhile (\<lambda>c. c = sep) (rev s))"

text \<open>
  \<^verbatim>\<open>
  i = p.rfind('/') + 1
  head, tail = p[:i], p[i:]
  if head and head != '/'*len(head):
      head = head.rstrip('/')
  return head, tail
  \<close>
\<close>

definition os_path_split :: "string \<Rightarrow> string \<times> string" where
  "os_path_split p =
     (let head = rev (dropWhile (\<lambda>c. c \<noteq> sep) (rev p));
          tail = rev (takeWhile (\<lambda>c. c \<noteq> sep) (rev p))
      in (if head \<noteq> [] \<and> head \<noteq> replicate (length head) sep
          then rstrip_sep head else head, tail))"

subsection \<open>\<open>ForkingLocalHTTPServer\<close>\<close>

text \<open>
  \<open>__init__\<close>: the base class's constructor (binding the socket) is taken to succeed.
  \<^verbatim>\<open>
  if 'consumers' not in config:
      raise ValueError('Configuration does not provide any consumer')
  self.config = config
  if 'server_string' in self.config:
      self.server_string = self.config['server_string']
  \<close>
\<close>

definition init :: "config \<Rightarrow> exn + server" where
  "init config =
     (if consumers config = None then Inl ValueError
      else Inr \<lparr>srv_config = config,
                srv_server_string =
                  (case server_string config of None \<Rightarrow> ''Custodia/0.1'' | Some s \<Rightarrow> s)\<rparr>)"

text \<open>
  What a run of \<open>pipeline\<close> leaves behind: the exception raised or the value returned,
  the request dictionary as it is then, and the plugin calls made, oldest first.
\<close>

type_synonym run = "(exn + response option) \<times> request \<times> call list"

text \<open>
  The authentication loop, over the keys of the registry:
  \<^verbatim>\<open>
  for auth in authers:
      authers[auth].handle(request)
  \<close>
\<close>

fun authenticate ::
  "(string \<times> authenticator) list \<Rightarrow> string list \<Rightarrow> request \<Rightarrow> call list
     \<Rightarrow> exn option \<times> request \<times> call list" where
  "authenticate authers [] request calls = (None, request, calls)"
| "authenticate authers (auth # rest) request calls =
     (case map_of authers auth of
        None \<Rightarrow> (Some KeyError, request, calls)
      | Some a \<Rightarrow>
          (case a request of
             (Some e, request') \<Rightarrow> (Some e, request', calls @ [AuthHandle auth])
           | (None, request') \<Rightarrow>
               authenticate authers rest request' (calls @ [AuthHandle auth])))"

text \<open>
  The consumer selection loop. It may run forever, so not returning is the value \<open>None\<close>.
  \<^verbatim>\<open>
  while path != '':
      if path in self.config['consumers']:
          con = self.config['consumers'][path]
          if len(trail) != 0:
              request['trail'] = trail
          return con.handle(request)
      if path == '/':
          path = ''
      else:
          head, tail = os.path.split(path)
          trail.insert(0, tail)
          path = head
  raise HTTPError(404)
  \<close>
\<close>

partial_function (option) consumer_loop ::
  "(string \<rightharpoonup> consumer) option \<Rightarrow> string \<Rightarrow> string list \<Rightarrow> request \<Rightarrow> call list
     \<Rightarrow> run option" where
  "consumer_loop cons path trail request calls =
     (if path \<noteq> [] then
        (case cons of
           None \<Rightarrow> Some (Inl KeyError, request, calls)
         | Some registry \<Rightarrow>
            (case registry path of
               Some con \<Rightarrow>
                 (let request' =
                        (if length trail \<noteq> 0
                         then request(''trail'' \<mapsto> PList (map PStr trail)) else request)
                  in Some (con request', request', calls @ [ConsumerHandle path]))
             | None \<Rightarrow>
                 (if path = [sep] then consumer_loop cons [] trail request calls
                  else (case os_path_split path of
                          (head, tail) \<Rightarrow>
                            consumer_loop cons head (tail # trail) request calls))))
      else Some (Inl (HTTPError 404), request, calls))"

text \<open>
  The second half of \<open>pipeline\<close>, under its comment \<open># Select consumer\<close>, on the
  request as the authenticators left it:
  \<^verbatim>\<open>
  path = request.get('path', '')
  if not os.path.isabs(path):
      raise HTTPError(400)
  trail = []
  while path != '': ...
  raise HTTPError(404)
  \<close>
  \<open>os.path.isabs\<close> of a value that is not a string raises.
\<close>

definition select_consumer :: "server \<Rightarrow> request \<Rightarrow> call list \<Rightarrow> run option" where
  "select_consumer self request calls =
     (case (case request ''path'' of None \<Rightarrow> PStr [] | Some v \<Rightarrow> v) of
        PStr path \<Rightarrow>
          (if \<not> os_path_isabs path then Some (Inl (HTTPError 400), request, calls)
           else consumer_loop (consumers (srv_config self)) path [] request calls)
      | _ \<Rightarrow> Some (Inl TypeError, request, calls))"

text \<open>
  \<open>pipeline\<close>, the authentication gate first:
  \<^verbatim>\<open>
  authers = self.config.get('authenticators')
  if authers is None:
      raise HTTPError(403)
  for auth in authers:
      authers[auth].handle(request)
  if 'valid_auth' not in request or request['valid_auth'] is not True:
      raise HTTPError(403)
  # Select consumer
  ...
  \<close>
\<close>

definition pipeline :: "server \<Rightarrow> request \<Rightarrow> run option" where
  "pipeline self request =
     (case authenticators (srv_config self) of
        None \<Rightarrow> Some (Inl (HTTPError 403), request, [])
      | Some authers \<Rightarrow>
          (case authenticate authers (map fst authers) request [] of
             (Some e, request1, calls) \<Rightarrow> Some (Inl e, request1, calls)
           | (None, request1, calls) \<Rightarrow>
               (if request1 ''valid_auth'' \<noteq> Some (PBool True)
                then Some (Inl (HTTPError 403), request1, calls)
                else select_consumer self request1 calls)))"

text \<open>
  Three readings of the gate, for stating what the second half of \<open>pipeline\<close> does:
  the request as the authenticators left it, whether the request passed the gate (no
  authenticator raised, and \<open>valid_auth\<close> is \<open>True\<close> afterwards), and the calls the
  loop makes when no authenticator raises.
\<close>

definition gate_request :: "server \<Rightarrow> request \<Rightarrow> request" where
  "gate_request self request =
     (case authenticators (srv_config self) of
        None \<Rightarrow> request
      | Some authers \<Rightarrow> fst (snd (authenticate authers (map fst authers) request [])))"

definition authenticated :: "server \<Rightarrow> request \<Rightarrow> bool" where
  "authenticated self request =
     (case authenticators (srv_config self) of
        None \<Rightarrow> False
      | Some authers \<Rightarrow>
          (case authenticate authers (map fst authers) request [] of
             (None, request1, _) \<Rightarrow> request1 ''valid_auth'' = Some (PBool True)
           | (Some e, _, _) \<Rightarrow> False))"

definition auth_calls :: "server \<Rightarrow> call list" where
  "auth_calls self =
     (case authenticators (srv_config self) of
        None \<Rightarrow> []
      | Some authers \<Rightarrow> map AuthHandle (map fst authers))"

subsection \<open>\<open>LocalHTTPRequestHandler\<close>\<close>

definition MAX_REQUEST_SIZE :: int where
  "MAX_REQUEST_SIZE = 10 * 1024 * 1024"

text \<open>
  The header block is a list of fields; \<open>headers.get(name, default)\<close> ignores the case
  of the name and returns the first field of that name.
\<close>

definition lower :: "char \<Rightarrow> char" where
  "lower c =
     (case map_of (zip ''ABCDEFGHIJKLMNOPQRSTUVWXYZ'' ''abcdefghijklmnopqrstuvwxyz'') c of
        None \<Rightarrow> c | Some d \<Rightarrow> d)"

definition headers_get :: "(string \<times> string) list \<Rightarrow> string \<Rightarrow> string option" where
  "headers_get headers name =
     map_of (map (\<lambda>(k, v). (map lower k, v)) headers) (map lower name)"

text \<open>
  \<open>int(s)\<close> of a header value, in base ten. A header value is a string of latin-1
  characters, one \<open>char\<close> each. The blanks around the number are dropped: the six
  ASCII blanks, and the two other latin-1 characters that count as white space,
  U+0085 and U+00A0. A sign may come first, and single underscores may stand between
  digits. A number of more than \<open>int_max_str_digits\<close> digits (leading zeros counted,
  underscores not) is refused; 4300 is the interpreter's default limit. \<open>None\<close> is
  \<open>ValueError\<close>.
\<close>

definition is_space :: "char \<Rightarrow> bool" where
  "is_space c \<longleftrightarrow>
     c \<in> set [CHR '' '', CHR 0x09, CHR 0x0A, CHR 0x0B, CHR 0x0C, CHR 0x0D, CHR 0x85, CHR 0xA0]"

definition int_max_str_digits :: nat where
  "int_max_str_digits = 4300"

definition strip :: "string \<Rightarrow> string" where
  "strip s = rev (dropWhile is_space (rev (dropWhile is_space s)))"

definition digit :: "char \<Rightarrow> nat option" where
  "digit c =
     map_of [(CHR ''0'', 0), (CHR ''1'', 1), (CHR ''2'', 2), (CHR ''3'', 3), (CHR ''4'', 4),
             (CHR ''5'', 5), (CHR ''6'', 6), (CHR ''7'', 7), (CHR ''8'', 8), (CHR ''9'', 9)] c"

fun valid_digits :: "string \<Rightarrow> bool" where
  "valid_digits [] = False"
| "valid_digits [c] = (digit c \<noteq> None)"
| "valid_digits (c # d # r) =
     (digit c \<noteq> None \<and> (if d = CHR ''_'' then valid_digits r else valid_digits (d # r)))"

definition digits_value :: "string \<Rightarrow> nat" where
  "digits_value ds =
     foldl (\<lambda>a c. 10 * a + (case digit c of None \<Rightarrow> 0 | Some d \<Rightarrow> d)) 0
       (filter (\<lambda>c. c \<noteq> CHR ''_'') ds)"

definition py_int :: "string \<Rightarrow> int option" where
  "py_int s =
     (let t = strip s;
          neg = (t \<noteq> [] \<and> hd t = CHR ''-'');
          ds = (if t \<noteq> [] \<and> (hd t = CHR ''-'' \<or> hd t = CHR ''+'') then tl t else t)
      in if valid_digits ds \<and>
            length (filter (\<lambda>c. c \<noteq> CHR ''_'') ds) \<le> int_max_str_digits
         then Some (if neg then - int (digits_value ds) else int (digits_value ds))
         else None)"

text \<open>
  \<open>rfile.read(n)\<close> of the buffered reader on the bytes that are left in the stream:
  \<open>n\<close> bytes, or all of them when there are fewer; \<open>-1\<close> reads to the end, any other
  negative size is refused. The result comes with the bytes left after the read.
\<close>

definition rfile_read :: "string \<Rightarrow> int \<Rightarrow> (exn + string) \<times> string" where
  "rfile_read rfile n =
     (if n = - 1 then (Inr rfile, [])
      else if n < 0 then (Inl ValueError, rfile)
      else (Inr (take (nat n) rfile), drop (nat n) rfile))"

text \<open>
  \<^verbatim>\<open>
  length = int(self.headers.get('content-length', 0))
  if length > MAX_REQUEST_SIZE:
      raise HTTPError(413)
  if length == 0:
      self.body = None
  else:
      self.body = self.rfile.read(length)
  \<close>
  The result is the exception or the body, with the bytes left in \<open>rfile\<close>.
\<close>

definition parse_body :: "(string \<times> string) list \<Rightarrow> string \<Rightarrow> (exn + string option) \<times> string" where
  "parse_body headers rfile =
     (case (case headers_get headers ''content-length'' of
              None \<Rightarrow> Some 0 | Some v \<Rightarrow> py_int v) of
        None \<Rightarrow> (Inl ValueError, rfile)
      | Some len \<Rightarrow>
          (if len > MAX_REQUEST_SIZE then (Inl (HTTPError 413), rfile)
           else if len = 0 then (Inr None, rfile)
           else (case rfile_read rfile len of
                   (Inl e, rfile') \<Rightarrow> (Inl e, rfile')
                 | (Inr body, rfile') \<Rightarrow> (Inr (Some body), rfile'))))"

text \<open>
  What \<open>parse_request\<close> leaves in the handler when it succeeds: the command, the path
  part of the target, the decoded query, the six parts of the parsed target, the
  protocol version and the header block.
\<close>

record parsed =
  req_command :: string
  req_path :: string
  req_query :: "(string \<times> string list) list"
  req_url :: "string list"
  req_version :: string
  req_headers :: "(string \<times> string) list"

text \<open>
  One connection as \<open>handle_one_request\<close> sees it: the line read by
  \<open>rfile.readline(65537)\<close>, the outcome of \<open>parse_request()\<close> (\<open>None\<close> when it
  returns false), the bytes left in \<open>rfile\<close> after the header block, and the peer
  credentials \<open>(pid, uid, gid)\<close> the socket reports.
\<close>

record connection =
  raw_requestline :: string
  parsed_request :: "parsed option"
  rfile_rest :: string
  peer_creds :: "int \<times> int \<times> int"

text \<open>
  \<^verbatim>\<open>
  request = {'creds': self.peer_creds, 'command': self.command, 'path': self.path,
             'query': self.query, 'url': self.url, 'version': self.request_version,
             'headers': self.headers, 'body': self.body}
  \<close>
\<close>

definition make_request :: "int \<times> int \<times> int \<Rightarrow> parsed \<Rightarrow> string option \<Rightarrow> request" where
  "make_request creds p body =
     [''creds'' \<mapsto> (case creds of (pid, uid, gid) \<Rightarrow>
                      PDict [(''pid'', PInt pid), (''uid'', PInt uid), (''gid'', PInt gid)]),
      ''command'' \<mapsto> PStr (req_command p),
      ''path'' \<mapsto> PStr (req_path p),
      ''query'' \<mapsto> PDict (map (\<lambda>(k, vs). (k, PList (map PStr vs))) (req_query p)),
      ''url'' \<mapsto> PList (map PStr (req_url p)),
      ''version'' \<mapsto> PStr (req_version p),
      ''headers'' \<mapsto> PDict (map (\<lambda>(k, v). (k, PStr v)) (req_headers p)),
      ''body'' \<mapsto> (case body of None \<Rightarrow> PNone | Some b \<Rightarrow> PStr b)]"

text \<open>What the handler does to the connection, in order.\<close>

datatype wire =
    SendError int
  | SendResponse int
  | SendHeader string string
  | EndHeaders
  | Write string
  | Flush

text \<open>
  The outcome of \<open>handle_one_request\<close>: what went to the connection, whether
  \<open>close_connection\<close> was set, and the exception that left the method, if any.
\<close>

record handled =
  sent :: "wire list"
  close_connection :: bool
  uncaught :: "exn option"

text \<open>
  \<^verbatim>\<open>
  self.send_response(response.get('code', 200))
  for header, value in six.iteritems(response.get('headers', {})):
      self.send_header(header, value)
  self.end_headers()
  output = response.get('output', None)
  if hasattr(output, 'read'):
      shutil.copyfileobj(output, self.wfile)
      output.close()
  elif output is not None:
      self.wfile.write(str(output).encode('utf-8'))
  else:
      self.close_connection = 1
  self.wfile.flush()
  \<close>
\<close>

definition send :: "response \<Rightarrow> handled" where
  "send response =
     \<lparr>sent =
        [SendResponse (case resp_code response of None \<Rightarrow> 200 | Some c \<Rightarrow> c)]
        @ map (\<lambda>(header, v). SendHeader header v)
            (case resp_headers response of None \<Rightarrow> [] | Some hs \<Rightarrow> hs)
        @ [EndHeaders]
        @ (case resp_output response of
             None \<Rightarrow> [] | Some (FileLike bytes) \<Rightarrow> [Write bytes]
           | Some (Printable text) \<Rightarrow> [Write text])
        @ [Flush],
      close_connection = (resp_output response = None),
      uncaught = None\<rparr>"

text \<open>
  \<open>handle_one_request\<close>. \<open>parse_body\<close> runs under \<open>except HTTPError\<close> alone, the
  pipeline under \<open>except HTTPError\<close>, \<open>except socket.timeout\<close> and
  \<open>except Exception\<close>, and the whole method under \<open>except socket.timeout\<close>.
  The pipeline may not return, and then neither does the method. The first test,
  \<open>if not self.server.pipeline\<close>, is of a bound method and never holds; logging and
  what \<open>send_error\<close> does to \<open>close_connection\<close> are left out.
\<close>

definition handle_one_request :: "server \<Rightarrow> connection \<Rightarrow> handled option" where
  "handle_one_request srv conn =
     (if raw_requestline conn = [] then
        Some \<lparr>sent = [], close_connection = True, uncaught = None\<rparr>
      else if length (raw_requestline conn) > 65536 then
        Some \<lparr>sent = [SendError 414, Flush], close_connection = False, uncaught = None\<rparr>
      else
        (case parsed_request conn of
           None \<Rightarrow> Some \<lparr>sent = [], close_connection = True, uncaught = None\<rparr>
         | Some p \<Rightarrow>
            (case parse_body (req_headers p) (rfile_rest conn) of
               (Inl (HTTPError c), _) \<Rightarrow>
                 Some \<lparr>sent = [SendError c, Flush], close_connection = False,
                        uncaught = None\<rparr>
             | (Inl SocketTimeout, _) \<Rightarrow>
                 Some \<lparr>sent = [], close_connection = True, uncaught = None\<rparr>
             | (Inl e, _) \<Rightarrow>
                 Some \<lparr>sent = [], close_connection = False, uncaught = Some e\<rparr>
             | (Inr body, _) \<Rightarrow>
                 (case pipeline srv (make_request (peer_creds conn) p body) of
                    None \<Rightarrow> None
                  | Some (Inl (HTTPError c), _, _) \<Rightarrow>
                      Some \<lparr>sent = [SendError c, Flush], close_connection = False,
                             uncaught = None\<rparr>
                  | Some (Inl SocketTimeout, _, _) \<Rightarrow>
                      Some \<lparr>sent = [], close_connection = True, uncaught = None\<rparr>
                  | Some (Inl e, _, _) \<Rightarrow>
                      Some \<lparr>sent = [SendError 500, Flush], close_connection = False,
                             uncaught = None\<rparr>
                  | Some (Inr None, _, _) \<Rightarrow>
                      Some \<lparr>sent = [SendError 500, Flush], close_connection = False,
                             uncaught = None\<rparr>
                  | Some (Inr (Some response), _, _) \<Rightarrow> Some (send response)))))"

subsection \<open>A configuration to run the model on\<close>

text \<open>
  An authenticator that grants every request, one that leaves the request alone, a
  consumer that answers with a given status code, and a server built from registries
  given as lists.
\<close>

definition allow :: authenticator where
  "allow request = (None, request(''valid_auth'' \<mapsto> PBool True))"

definition abstain :: authenticator where
  "abstain request = (None, request)"

definition answer :: "int \<Rightarrow> consumer" where
  "answer c request = Inr (Some \<lparr>resp_code = Some c, resp_headers = None, resp_output = None\<rparr>)"

definition a_server ::
  "(string \<times> authenticator) list option \<Rightarrow> (string \<times> consumer) list \<Rightarrow> server" where
  "a_server authers registry =
     \<lparr>srv_config = \<lparr>consumers = Some (map_of registry), authenticators = authers,
                      server_string = None\<rparr>,
      srv_server_string = ''Custodia/0.1''\<rparr>"

definition a_parsed :: "string \<Rightarrow> (string \<times> string) list \<Rightarrow> parsed" where
  "a_parsed p hs =
     \<lparr>req_command = ''GET'', req_path = p, req_query = [],
      req_url = [[], [], p, [], [], []], req_version = ''HTTP/1.0'',
      req_headers = hs\<rparr>"

definition a_request :: "string \<Rightarrow> request" where
  "a_request p = make_request (4711, 1000, 1000) (a_parsed p []) None"

section \<open>Properties\<close>

subsection \<open>\<open>os.path.split\<close>\<close>

text \<open>
  Splitting \<open>X/s\<close>, where \<open>s\<close> has no separator and \<open>X\<close> is empty or does not end
  in one, gives \<open>X\<close> (the root for an empty \<open>X\<close>) and \<open>s\<close>.
\<close>

lemma os_path_split_snoc:
  assumes "X = [] \<or> last X \<noteq> sep" and "sep \<notin> set s"
  shows "os_path_split (X @ sep # s) = (if X = [] then [sep] else X, s)"
proof -
  have t: "takeWhile (\<lambda>c. c \<noteq> sep) (rev s @ sep # rev X) = rev s"
    using assms(2) by (subst takeWhile_append2) auto
  have d: "dropWhile (\<lambda>c. c \<noteq> sep) (rev s @ sep # rev X) = sep # rev X"
    using assms(2) by (subst dropWhile_append2) auto
  show ?thesis
  proof (cases "X = []")
    case True
    then show ?thesis using t d by (simp add: os_path_split_def Let_def)
  next
    case False
    with assms(1) have l: "last X \<noteq> sep" by simp
    have ne: "X @ [sep] \<noteq> replicate (Suc (length X)) sep"
    proof
      assume "X @ [sep] = replicate (Suc (length X)) sep"
      then have "set (X @ [sep]) \<subseteq> {sep}"
        by (metis set_replicate_conv_if subset_refl empty_subsetI)
      with False l show False using last_in_set by fastforce
    qed
    have r: "rstrip_sep (X @ [sep]) = X"
      using False l by (cases X rule: rev_cases) (simp_all add: rstrip_sep_def)
    show ?thesis using t d False ne r by (simp add: os_path_split_def Let_def)
  qed
qed

text \<open>A path of separators alone is its own head.\<close>

lemma os_path_split_seps:
  "0 < n \<Longrightarrow> os_path_split (replicate n sep) = (replicate n sep, [])"
  by (cases n)
    (simp_all add: os_path_split_def Let_def replicate_append_same [symmetric]
      del: replicate_Suc)

subsection \<open>One turn of the consumer loop\<close>

lemma consumer_loop_hit:
  "p \<noteq> [] \<Longrightarrow> registry p = Some con \<Longrightarrow>
   consumer_loop (Some registry) p trail request calls =
     Some (con (if trail \<noteq> [] then request(''trail'' \<mapsto> PList (map PStr trail))
                else request),
           if trail \<noteq> [] then request(''trail'' \<mapsto> PList (map PStr trail)) else request,
           calls @ [ConsumerHandle p])"
  by (subst consumer_loop.simps) (simp add: Let_def)

lemma consumer_loop_root_miss:
  "registry [sep] = None \<Longrightarrow>
   consumer_loop (Some registry) [sep] trail request calls =
     Some (Inl (HTTPError 404), request, calls)"
  by (subst consumer_loop.simps, simp, subst consumer_loop.simps, simp)

lemma consumer_loop_miss:
  "p \<noteq> [] \<Longrightarrow> p \<noteq> [sep] \<Longrightarrow> registry p = None \<Longrightarrow>
   consumer_loop (Some registry) p trail request calls =
     consumer_loop (Some registry) (fst (os_path_split p)) (snd (os_path_split p) # trail)
       request calls"
  by (subst consumer_loop.simps) (simp add: case_prod_beta)

subsection \<open>The loop on a path of two or more separators\<close>

lemma consumer_loop_stuck:
  assumes "consumer_loop cons p trail request calls = Some y"
  shows "\<not> (cons = Some registry \<and> registry p = None \<and>
            (\<exists>n. 2 \<le> n \<and> p = replicate n sep))"
  using assms
proof (induction rule: consumer_loop.raw_induct [rotated 1, consumes 1])
  case (1 f cons p trail request calls y)
  show ?case
  proof
    assume a: "cons = Some registry \<and> registry p = None \<and>
               (\<exists>n. 2 \<le> n \<and> p = replicate n sep)"
    then obtain n where n: "2 \<le> n" "p = replicate n sep" by blast
    from n have "length p = n" by simp
    with n(1) have ne: "p \<noteq> []" "p \<noteq> [sep]" by auto
    from n have sp: "os_path_split p = (p, [])"
      by (simp add: os_path_split_seps)
    from 1(2) a ne sp have "f cons p ([] # trail) request calls = Some y" by simp
    from 1(1) [OF this] a show False by simp
  qed
qed

lemma consumer_loop_diverges:
  "registry (replicate n sep) = None \<Longrightarrow> 2 \<le> n \<Longrightarrow>
   consumer_loop (Some registry) (replicate n sep) trail request calls = None"
  using consumer_loop_stuck [of "Some registry" "replicate n sep" trail request calls _ registry]
  by (cases "consumer_loop (Some registry) (replicate n sep) trail request calls") auto

subsection \<open>The loop walking up a path of segments\<close>

lemma last_join:
  assumes "X \<noteq> []" "last X \<noteq> sep" "\<forall>s\<in>set segs. s \<noteq> [] \<and> sep \<notin> set s"
  shows "last (X @ concat (map ((#) sep) segs)) \<noteq> sep"
proof (cases segs rule: rev_cases)
  case Nil
  with assms show ?thesis by simp
next
  case (snoc ys s)
  with assms(3) have "s \<noteq> []" "sep \<notin> set s" by auto
  then have "last s \<noteq> sep" using last_in_set by metis
  with snoc \<open>s \<noteq> []\<close> show ?thesis by simp
qed

lemma consumer_loop_walk:
  assumes "X \<noteq> []" "last X \<noteq> sep"
  shows "\<forall>s\<in>set segs. s \<noteq> [] \<and> sep \<notin> set s \<Longrightarrow>
         \<forall>k. 0 < k \<and> k \<le> length segs \<longrightarrow>
               registry (X @ concat (map ((#) sep) (take k segs))) = None \<Longrightarrow>
         consumer_loop (Some registry) (X @ concat (map ((#) sep) segs)) trail request calls =
         consumer_loop (Some registry) X (segs @ trail) request calls"
proof (induction segs arbitrary: trail rule: rev_induct)
  case Nil
  show ?case by simp
next
  case (snoc s segs)
  let ?Y = "X @ concat (map ((#) sep) segs)"
  from snoc.prems(1) have segs: "\<forall>s\<in>set segs. s \<noteq> [] \<and> sep \<notin> set s"
    and s: "s \<noteq> []" "sep \<notin> set s" by auto
  have Y: "?Y \<noteq> []" "last ?Y \<noteq> sep"
    using assms segs by (simp, rule last_join)
  have unreg: "registry (?Y @ sep # s) = None"
    using snoc.prems(2) [rule_format, of "Suc (length segs)"] by simp
  have inner: "\<forall>k. 0 < k \<and> k \<le> length segs \<longrightarrow>
                 registry (X @ concat (map ((#) sep) (take k segs))) = None"
  proof (intro allI impI)
    fix k assume k: "0 < k \<and> k \<le> length segs"
    then show "registry (X @ concat (map ((#) sep) (take k segs))) = None"
      using snoc.prems(2) [rule_format, of k] by simp
  qed
  have sp: "os_path_split (?Y @ sep # s) = (?Y, s)"
    using os_path_split_snoc [of ?Y s] Y s by simp
  have ne: "?Y @ sep # s \<noteq> []" "?Y @ sep # s \<noteq> [sep]"
    using assms(1) by (simp, cases X, simp_all)
  have "consumer_loop (Some registry) (?Y @ sep # s) trail request calls =
        consumer_loop (Some registry) ?Y (s # trail) request calls"
    using consumer_loop_miss [of "?Y @ sep # s" registry trail request calls] ne unreg sp
    by simp
  also have "\<dots> = consumer_loop (Some registry) X (segs @ s # trail) request calls"
    using snoc.IH [OF segs inner] .
  finally show ?case by simp
qed

lemma consumer_loop_walk_root:
  assumes "segs \<noteq> []" "\<forall>s\<in>set segs. s \<noteq> [] \<and> sep \<notin> set s"
    and "\<forall>k. 0 < k \<and> k \<le> length segs \<longrightarrow>
               registry (concat (map ((#) sep) (take k segs))) = None"
  shows "consumer_loop (Some registry) (concat (map ((#) sep) segs)) trail request calls =
         consumer_loop (Some registry) [sep] (segs @ trail) request calls"
proof -
  from assms(1) obtain s rest where segs: "segs = s # rest" by (cases segs) auto
  with assms(2) have s: "s \<noteq> []" "sep \<notin> set s"
    and rest: "\<forall>s\<in>set rest. s \<noteq> [] \<and> sep \<notin> set s" by auto
  let ?X = "sep # s"
  have X: "?X \<noteq> []" "last ?X \<noteq> sep" using s last_in_set by (simp, fastforce)
  have inner: "\<forall>k. 0 < k \<and> k \<le> length rest \<longrightarrow>
                 registry (?X @ concat (map ((#) sep) (take k rest))) = None"
  proof (intro allI impI)
    fix k assume "0 < k \<and> k \<le> length rest"
    then show "registry (?X @ concat (map ((#) sep) (take k rest))) = None"
      using assms(3) [rule_format, of "Suc k"] segs by simp
  qed
  have unreg: "registry ?X = None"
    using assms(3) [rule_format, of 1] segs by simp
  have sp: "os_path_split ?X = ([sep], s)"
    using os_path_split_snoc [of "[]" s] s by simp
  have "consumer_loop (Some registry) (concat (map ((#) sep) segs)) trail request calls =
        consumer_loop (Some registry) (?X @ concat (map ((#) sep) rest)) trail request calls"
    using segs by simp
  also have "\<dots> = consumer_loop (Some registry) ?X (rest @ trail) request calls"
    using consumer_loop_walk [OF X rest inner] .
  also have "\<dots> = consumer_loop (Some registry) [sep] (s # rest @ trail) request calls"
  proof -
    have ne: "?X \<noteq> []" "?X \<noteq> [sep]" using s by simp_all
    show ?thesis
      using consumer_loop_miss [of ?X registry "rest @ trail" request calls] ne unreg sp
      by simp
  qed
  finally show ?thesis using segs by simp
qed

subsection \<open>The authentication loop\<close>

lemma authenticate_calls:
  "authenticate authers names request calls0 = (None, request1, calls) \<Longrightarrow>
   calls = calls0 @ map AuthHandle names"
proof (induction names arbitrary: request calls0)
  case Nil
  then show ?case by simp
next
  case (Cons auth rest)
  from Cons.prems obtain a request' where
    a: "map_of authers auth = Some a" "a request = (None, request')"
    and rest: "authenticate authers rest request' (calls0 @ [AuthHandle auth]) =
                 (None, request1, calls)"
    by (auto split: option.splits prod.splits)
  from Cons.IH [OF rest] show ?case by simp
qed

lemma authenticate_no_dispatch:
  "authenticate authers names request calls0 = (res, request1, calls) \<Longrightarrow>
   \<forall>p. ConsumerHandle p \<notin> set calls0 \<Longrightarrow> ConsumerHandle p \<notin> set calls"
proof (induction names arbitrary: request calls0)
  case Nil
  then show ?case by simp
next
  case (Cons auth rest)
  show ?case
  proof (cases "map_of authers auth")
    case None
    with Cons.prems show ?thesis by simp
  next
    case (Some a)
    obtain r request' where a: "a request = (r, request')" by (cases "a request")
    show ?thesis
    proof (cases r)
      case None
      with Cons.prems Some a
      have "authenticate authers rest request' (calls0 @ [AuthHandle auth]) =
              (res, request1, calls)"
        by simp
      from Cons.IH [OF this] Cons.prems(2) show ?thesis by simp
    next
      case (Some e)
      with Cons.prems \<open>map_of authers auth = Some a\<close> a show ?thesis by auto
    qed
  qed
qed

text \<open>A request that passed the gate goes on to the consumer selection.\<close>

lemma pipeline_authenticated:
  assumes "authenticated self request"
  shows "pipeline self request =
           select_consumer self (gate_request self request) (auth_calls self)"
proof -
  from assms obtain authers where a: "authenticators (srv_config self) = Some authers"
    by (auto simp: authenticated_def split: option.splits)
  obtain r request1 calls where
    r: "authenticate authers (map fst authers) request [] = (r, request1, calls)"
    by (cases "authenticate authers (map fst authers) request []") auto
  with assms a have n: "r = None" and v: "request1 ''valid_auth'' = Some (PBool True)"
    by (auto simp: authenticated_def split: option.splits)
  from r n have "calls = map AuthHandle (map fst authers)"
    using authenticate_calls [of authers "map fst authers" request "[]" request1 calls] by simp
  with a r n v show ?thesis
    by (simp add: pipeline_def gate_request_def auth_calls_def)
qed

subsection \<open>Evaluating the model\<close>

lemmas fixtures = a_server_def a_request_def a_parsed_def allow_def abstain_def answer_def

lemma make_request_valid_auth: "make_request creds p body ''valid_auth'' = None"
  by (simp add: make_request_def)

lemma make_request_trail: "make_request creds p body ''trail'' = None"
  by (simp add: make_request_def)

lemma headers_get_content_length:
  "headers_get [(''Content-Length'', v)] ''content-length'' = Some v"
  by (simp add: headers_get_def lower_def)

lemma headers_get_empty: "headers_get [] name = None"
  by (simp add: headers_get_def)

lemmas py_int_eval = py_int_def strip_def is_space_def digits_value_def digit_def Let_def
  int_max_str_digits_def

lemma py_int_10485761: "py_int ''10485761'' = Some 10485761"
  by (simp add: py_int_eval)

lemma py_int_3: "py_int ''3'' = Some 3"
  by (simp add: py_int_eval)

lemma py_int_0: "py_int ''0'' = Some 0"
  by (simp add: py_int_eval)

lemma py_int_abc: "py_int ''abc'' = None"
  by (simp add: py_int_eval)

text \<open>
  A header value padded with U+00A0 is read as its number, and a value of 4301 digits
  is refused, whatever the digits.
\<close>

lemma py_int_nbsp: "py_int [CHR 0xA0, CHR ''3'', CHR 0x85] = Some 3"
  by (simp add: py_int_eval)

lemma py_int_over_limit: "py_int (replicate 4301 CHR ''0'') = None"
  by (simp add: py_int_eval)

subsection \<open>The authentication gate with no authenticators\<close>

lemma pipeline_no_authenticators:
  "authenticators (srv_config self) = None \<Longrightarrow>
   pipeline self request = Some (Inl (HTTPError 403), request, [])"
  by (simp add: pipeline_def)

lemma pipeline_empty_authenticators:
  "authenticators (srv_config self) = Some [] \<Longrightarrow>
   request ''valid_auth'' \<noteq> Some (PBool True) \<Longrightarrow>
   pipeline self request = Some (Inl (HTTPError 403), request, [])"
  by (simp add: pipeline_def)

text \<open>
  Claim C1. With the authenticator registry absent, the pipeline raises
  \<open>HTTPError(403)\<close> on every request dictionary, without touching it. With a registry
  that is present and empty, it raises \<open>HTTPError(403)\<close> on every request the handler
  builds, whatever the credentials, the parsed request and the body: no authenticator
  runs, and the dictionary the handler builds has no \<open>valid_auth\<close> key.
\<close>

theorem empty_registry_forbidden:
  "(authenticators (srv_config self) = None \<longrightarrow>
      pipeline self request = Some (Inl (HTTPError 403), request, [])) \<and>
   (authenticators (srv_config self) = Some [] \<longrightarrow>
      pipeline self (make_request creds p body) =
        Some (Inl (HTTPError 403), make_request creds p body, []))"
  by (simp add: pipeline_no_authenticators pipeline_empty_authenticators
      make_request_valid_auth)

theorem empty_registry_forbidden_witness:
  "authenticators (srv_config (a_server None [(''/'', answer 200)])) = None \<and>
   pipeline (a_server None [(''/'', answer 200)]) (a_request ''/'') =
     Some (Inl (HTTPError 403), a_request ''/'', []) \<and>
   authenticators (srv_config (a_server (Some []) [(''/'', answer 200)])) = Some [] \<and>
   pipeline (a_server (Some []) [(''/'', answer 200)]) (a_request ''/'') =
     Some (Inl (HTTPError 403), a_request ''/'', [])"
  using empty_registry_forbidden [of "a_server None [(''/'', answer 200)]" "a_request ''/''"]
    empty_registry_forbidden [of "a_server (Some []) [(''/'', answer 200)]" _
      "(4711, 1000, 1000)" "a_parsed ''/'' []" None]
  by (simp add: a_server_def a_request_def)

text \<open>
  The second half of C1 is about the requests the handler builds. \<open>pipeline\<close> itself
  takes any dictionary, and one that already carries \<open>valid_auth = True\<close> passes the
  gate of an empty registry.
\<close>

lemma pipeline_empty_authenticators_presupplied:
  "pipeline (a_server (Some []) [(''/'', answer 200)])
     [''path'' \<mapsto> PStr ''/'', ''valid_auth'' \<mapsto> PBool True] =
   Some (answer 200 [''path'' \<mapsto> PStr ''/'', ''valid_auth'' \<mapsto> PBool True],
         [''path'' \<mapsto> PStr ''/'', ''valid_auth'' \<mapsto> PBool True],
         [ConsumerHandle ''/''])"
  by (simp add: pipeline_def select_consumer_def a_server_def os_path_isabs_def sep_def
      consumer_loop_hit)

subsection \<open>Construction of the server\<close>

text \<open>
  Claim C2, as the code has it. Construction fails exactly when the configuration has no
  \<open>consumers\<close> key; a registry that is present is accepted, empty or not.
\<close>

theorem init_fails_iff_consumers_missing:
  "(\<exists>e. init config = Inl e) \<longleftrightarrow> consumers config = None"
  by (simp add: init_def)

theorem init_fails_iff_consumers_missing_witness:
  "\<exists>e. init \<lparr>consumers = None, authenticators = Some [(''a'', allow)],
                server_string = None\<rparr> = Inl e"
  using init_fails_iff_consumers_missing
    [of "\<lparr>consumers = None, authenticators = Some [(''a'', allow)], server_string = None\<rparr>"]
  by simp

text \<open>Claim C2, as stated, fails: the empty registry \<open>{}\<close> is accepted.\<close>

theorem init_accepts_empty_registry:
  "init \<lparr>consumers = Some Map.empty, authenticators = None, server_string = None\<rparr> =
     Inr \<lparr>srv_config =
            \<lparr>consumers = Some Map.empty, authenticators = None, server_string = None\<rparr>,
          srv_server_string = ''Custodia/0.1''\<rparr>"
  by (simp add: init_def)

subsection \<open>Reading the body\<close>

text \<open>
  Claim C7. With a \<open>content-length\<close> header that \<open>int\<close> reads as \<open>n\<close>: for \<open>n\<close> above
  \<open>10 * 1024 * 1024\<close>, \<open>parse_body\<close> raises \<open>HTTPError(413)\<close> and the stream is as it
  was; for \<open>n\<close> from 1 to the limit, the body is the result of \<open>rfile.read(n)\<close>, the
  first \<open>n\<close> bytes of the stream, which is left without them (\<open>n\<close> bytes when the stream
  holds that many); for 0, and with no such header, the body is \<open>None\<close> and nothing is
  read.
\<close>

theorem parse_body_length:
  "(headers_get headers ''content-length'' = Some v \<and> py_int v = Some n \<longrightarrow>
      (MAX_REQUEST_SIZE < n \<longrightarrow> parse_body headers rfile = (Inl (HTTPError 413), rfile)) \<and>
      (1 \<le> n \<and> n \<le> MAX_REQUEST_SIZE \<longrightarrow>
         parse_body headers rfile = (Inr (Some (take (nat n) rfile)), drop (nat n) rfile) \<and>
         (nat n \<le> length rfile \<longrightarrow> length (take (nat n) rfile) = nat n)) \<and>
      (n = 0 \<longrightarrow> parse_body headers rfile = (Inr None, rfile))) \<and>
   (headers_get headers ''content-length'' = None \<longrightarrow>
      parse_body headers rfile = (Inr None, rfile))"
  by (auto simp: parse_body_def rfile_read_def MAX_REQUEST_SIZE_def)

theorem parse_body_length_witness:
  "parse_body [(''Content-Length'', ''10485761'')] ''abcde'' =
     (Inl (HTTPError 413), ''abcde'') \<and>
   parse_body [(''Content-Length'', ''3'')] ''abcde'' = (Inr (Some ''abc''), ''de'') \<and>
   parse_body [(''Content-Length'', ''0'')] ''abcde'' = (Inr None, ''abcde'') \<and>
   parse_body [] ''abcde'' = (Inr None, ''abcde'')"
  using
    parse_body_length [of "[(''Content-Length'', ''10485761'')]" "''10485761''" 10485761
      "''abcde''"]
    parse_body_length [of "[(''Content-Length'', ''3'')]" "''3''" 3 "''abcde''"]
    parse_body_length [of "[(''Content-Length'', ''0'')]" "''0''" 0 "''abcde''"]
    parse_body_length [of "[]" _ _ "''abcde''"]
  by (simp add: headers_get_content_length py_int_10485761 py_int_3 py_int_0
      MAX_REQUEST_SIZE_def headers_get_empty)

text \<open>
  Claim C9. With a \<open>content-length\<close> header that \<open>int\<close> does not read, \<open>parse_body\<close>
  raises \<open>ValueError\<close>, and \<open>handle_one_request\<close>, which catches \<open>HTTPError\<close> alone
  around it, lets the exception through: nothing is sent on the connection.
\<close>

theorem non_integer_content_length_uncaught:
  assumes "headers_get headers ''content-length'' = Some v" and "py_int v = None"
  shows "parse_body headers rfile = (Inl ValueError, rfile) \<and>
         (raw_requestline conn \<noteq> [] \<and> length (raw_requestline conn) \<le> 65536 \<and>
          parsed_request conn = Some p \<and> req_headers p = headers \<and>
          rfile_rest conn = rfile \<longrightarrow>
          handle_one_request srv conn =
            Some \<lparr>sent = [], close_connection = False, uncaught = Some ValueError\<rparr>)"
  using assms by (auto simp: parse_body_def handle_one_request_def)

theorem non_integer_content_length_uncaught_witness:
  "headers_get [(''Content-Length'', ''abc'')] ''content-length'' = Some ''abc'' \<and>
   py_int ''abc'' = None \<and>
   parse_body [(''Content-Length'', ''abc'')] ''xyz'' = (Inl ValueError, ''xyz'') \<and>
   handle_one_request (a_server (Some [(''a'', allow)]) [(''/'', answer 200)])
     \<lparr>raw_requestline = ''GET / HTTP/1.0'',
      parsed_request = Some (a_parsed ''/'' [(''Content-Length'', ''abc'')]),
      rfile_rest = ''xyz'', peer_creds = (4711, 1000, 1000)\<rparr> =
     Some \<lparr>sent = [], close_connection = False, uncaught = Some ValueError\<rparr>"
  using non_integer_content_length_uncaught
    [of "[(''Content-Length'', ''abc'')]" "''abc''" "''xyz''"
      "\<lparr>raw_requestline = ''GET / HTTP/1.0'',
        parsed_request = Some (a_parsed ''/'' [(''Content-Length'', ''abc'')]),
        rfile_rest = ''xyz'', peer_creds = (4711, 1000, 1000)\<rparr>"
      "a_parsed ''/'' [(''Content-Length'', ''abc'')]"
      "a_server (Some [(''a'', allow)]) [(''/'', answer 200)]"]
  by (simp add: headers_get_content_length py_int_abc a_parsed_def)

subsection \<open>What the consumer selection returns\<close>

text \<open>
  The loop ends in one of three ways: \<open>HTTPError(404)\<close> or \<open>KeyError\<close> with the request
  and the call log as they were, or the call of one consumer.
\<close>

lemma consumer_loop_result:
  assumes "consumer_loop cons p trail request calls = Some y"
  shows "(y = (Inl (HTTPError 404), request, calls) \<or> y = (Inl KeyError, request, calls)) \<or>
         (\<exists>q. snd (snd y) = calls @ [ConsumerHandle q])"
  using assms
proof (induction rule: consumer_loop.raw_induct [rotated 1, consumes 1])
  case (1 f cons p trail request calls y)
  then show ?case
    by (auto split: if_splits option.splits prod.splits simp: Let_def)
qed

lemma select_consumer_result:
  assumes "select_consumer self request calls = Some (res, request', calls')"
  shows "(request' = request \<and> calls' = calls \<and>
          res \<in> {Inl (HTTPError 400), Inl (HTTPError 404), Inl KeyError, Inl TypeError}) \<or>
         (\<exists>q. calls' = calls @ [ConsumerHandle q])"
proof (cases "case request ''path'' of None \<Rightarrow> PStr [] | Some v \<Rightarrow> v")
  case (PStr s)
  show ?thesis
  proof (cases "os_path_isabs s")
    case True
    with PStr assms
    have "consumer_loop (consumers (srv_config self)) s [] request calls =
            Some (res, request', calls')"
      by (simp add: select_consumer_def)
    from consumer_loop_result [OF this] show ?thesis by auto
  next
    case False
    with PStr assms show ?thesis by (simp add: select_consumer_def)
  qed
qed (use assms in \<open>simp_all add: select_consumer_def\<close>)

lemma select_consumer_hit:
  assumes "consumers (srv_config self) = Some registry"
    and "request ''path'' = Some (PStr P)" and "os_path_isabs P" and "registry P = Some con"
  shows "select_consumer self request calls =
           Some (con request, request, calls @ [ConsumerHandle P])"
proof -
  from assms(3) have "P \<noteq> []" by (auto simp: os_path_isabs_def)
  with assms show ?thesis
    by (simp add: select_consumer_def consumer_loop_hit)
qed

lemma select_consumer_below:
  assumes "consumers (srv_config self) = Some registry"
    and "request ''path'' = Some (PStr (P @ concat (map ((#) sep) segs)))"
    and "os_path_isabs P" and "last P \<noteq> sep" and "registry P = Some con"
    and "segs \<noteq> []" and "\<forall>s\<in>set segs. s \<noteq> [] \<and> sep \<notin> set s"
    and "\<forall>k. 0 < k \<and> k \<le> length segs \<longrightarrow>
               registry (P @ concat (map ((#) sep) (take k segs))) = None"
  shows "select_consumer self request calls =
           Some (con (request(''trail'' \<mapsto> PList (map PStr segs))),
                 request(''trail'' \<mapsto> PList (map PStr segs)),
                 calls @ [ConsumerHandle P])"
proof -
  from assms(3) have P: "P \<noteq> []" by (auto simp: os_path_isabs_def)
  with assms(3) have abs: "os_path_isabs (P @ concat (map ((#) sep) segs))"
    by (cases P) (auto simp: os_path_isabs_def)
  have "consumer_loop (Some registry) (P @ concat (map ((#) sep) segs)) [] request calls =
        consumer_loop (Some registry) P (segs @ []) request calls"
    using consumer_loop_walk [OF P assms(4) assms(7) assms(8)] .
  also have "\<dots> = Some (con (request(''trail'' \<mapsto> PList (map PStr segs))),
                 request(''trail'' \<mapsto> PList (map PStr segs)),
                 calls @ [ConsumerHandle P])"
    using P assms(5,6) by (simp add: consumer_loop_hit)
  finally show ?thesis
    using assms(1,2) abs by (simp add: select_consumer_def)
qed

lemma select_consumer_below_root:
  assumes "consumers (srv_config self) = Some registry"
    and "request ''path'' = Some (PStr (concat (map ((#) sep) segs)))"
    and "registry [sep] = Some con"
    and "segs \<noteq> []" and "\<forall>s\<in>set segs. s \<noteq> [] \<and> sep \<notin> set s"
    and "\<forall>k. 0 < k \<and> k \<le> length segs \<longrightarrow>
               registry (concat (map ((#) sep) (take k segs))) = None"
  shows "select_consumer self request calls =
           Some (con (request(''trail'' \<mapsto> PList (map PStr segs))),
                 request(''trail'' \<mapsto> PList (map PStr segs)),
                 calls @ [ConsumerHandle [sep]])"
proof -
  from assms(4) have abs: "os_path_isabs (concat (map ((#) sep) segs))"
    by (cases segs) (auto simp: os_path_isabs_def)
  have "consumer_loop (Some registry) (concat (map ((#) sep) segs)) [] request calls =
        consumer_loop (Some registry) [sep] (segs @ []) request calls"
    using consumer_loop_walk_root [OF assms(4) assms(5) assms(6)] .
  also have "\<dots> = Some (con (request(''trail'' \<mapsto> PList (map PStr segs))),
                 request(''trail'' \<mapsto> PList (map PStr segs)),
                 calls @ [ConsumerHandle [sep]])"
    using assms(3,4) by (simp add: consumer_loop_hit)
  finally show ?thesis
    using assms(1,2) abs by (simp add: select_consumer_def)
qed

text \<open>
  A path \<open>/\<close> or \<open>/s1/.../sn\<close> of non-empty segments, none of whose ancestors is
  registered, ends in \<open>HTTPError(404)\<close>.
\<close>

lemma select_consumer_not_found:
  assumes "consumers (srv_config self) = Some registry" and "registry [sep] = None"
    and "request ''path'' = Some (PStr (if segs = [] then [sep] else concat (map ((#) sep) segs)))"
    and "\<forall>s\<in>set segs. s \<noteq> [] \<and> sep \<notin> set s"
    and "\<forall>k. 0 < k \<and> k \<le> length segs \<longrightarrow>
               registry (concat (map ((#) sep) (take k segs))) = None"
  shows "select_consumer self request calls = Some (Inl (HTTPError 404), request, calls)"
proof (cases "segs = []")
  case True
  with assms(1-3) show ?thesis
    by (simp add: select_consumer_def os_path_isabs_def consumer_loop_root_miss)
next
  case False
  then have abs: "os_path_isabs (concat (map ((#) sep) segs))"
    by (cases segs) (auto simp: os_path_isabs_def)
  have "consumer_loop (Some registry) (concat (map ((#) sep) segs)) [] request calls =
        consumer_loop (Some registry) [sep] (segs @ []) request calls"
    using consumer_loop_walk_root [OF False assms(4) assms(5)] .
  also have "\<dots> = Some (Inl (HTTPError 404), request, calls)"
    using assms(2) by (simp add: consumer_loop_root_miss)
  finally show ?thesis using assms(1,3) False abs by (simp add: select_consumer_def)
qed

subsection \<open>The authentication gate\<close>


lemmas path_eval = os_path_isabs_def os_path_split_def rstrip_sep_def sep_def Let_def

lemmas gate_eval = pipeline_def select_consumer_def gate_request_def authenticated_def
  auth_calls_def make_request_def





subsection \<open>Dispatch to a registered prefix\<close>

text \<open>
  Claim C5, as the code has it. For an authenticated request and an absolute registered
  prefix \<open>P\<close>: a path equal to \<open>P\<close> is dispatched to the consumer of \<open>P\<close> with the
  request as the authenticators left it (nothing is attached); when \<open>P\<close> does not end
  in a separator, the path \<open>P/s1/.../sn\<close> of non-empty segments without separators,
  none of \<open>P/s1\<close>, ..., \<open>P/s1/.../sn\<close> being registered, is dispatched to the consumer
  of \<open>P\<close> with \<open>trail = [s1, ..., sn]\<close>; and so is the path \<open>/s1/.../sn\<close> when \<open>P\<close>
  is the root.
\<close>

theorem dispatch_to_registered_prefix:
  assumes "authenticated self request"
    and "consumers (srv_config self) = Some registry"
    and "registry P = Some con" and "os_path_isabs P"
  shows "(gate_request self request ''path'' = Some (PStr P) \<longrightarrow>
            pipeline self request =
              Some (con (gate_request self request), gate_request self request,
                    auth_calls self @ [ConsumerHandle P])) \<and>
         (segs \<noteq> [] \<and> (\<forall>s\<in>set segs. s \<noteq> [] \<and> sep \<notin> set s) \<and> last P \<noteq> sep \<and>
          gate_request self request ''path'' = Some (PStr (P @ concat (map ((#) sep) segs))) \<and>
          (\<forall>k. 0 < k \<and> k \<le> length segs \<longrightarrow>
                registry (P @ concat (map ((#) sep) (take k segs))) = None) \<longrightarrow>
            pipeline self request =
              Some (con ((gate_request self request)(''trail'' \<mapsto> PList (map PStr segs))),
                    (gate_request self request)(''trail'' \<mapsto> PList (map PStr segs)),
                    auth_calls self @ [ConsumerHandle P])) \<and>
         (segs \<noteq> [] \<and> (\<forall>s\<in>set segs. s \<noteq> [] \<and> sep \<notin> set s) \<and> P = [sep] \<and>
          gate_request self request ''path'' = Some (PStr (concat (map ((#) sep) segs))) \<and>
          (\<forall>k. 0 < k \<and> k \<le> length segs \<longrightarrow>
                registry (concat (map ((#) sep) (take k segs))) = None) \<longrightarrow>
            pipeline self request =
              Some (con ((gate_request self request)(''trail'' \<mapsto> PList (map PStr segs))),
                    (gate_request self request)(''trail'' \<mapsto> PList (map PStr segs)),
                    auth_calls self @ [ConsumerHandle P]))"
proof (intro conjI impI)
  assume "gate_request self request ''path'' = Some (PStr P)"
  then show "pipeline self request =
      Some (con (gate_request self request), gate_request self request,
            auth_calls self @ [ConsumerHandle P])"
    using assms by (simp add: pipeline_authenticated select_consumer_hit)
next
  assume a: "segs \<noteq> [] \<and> (\<forall>s\<in>set segs. s \<noteq> [] \<and> sep \<notin> set s) \<and> last P \<noteq> sep \<and>
          gate_request self request ''path'' = Some (PStr (P @ concat (map ((#) sep) segs))) \<and>
          (\<forall>k. 0 < k \<and> k \<le> length segs \<longrightarrow>
                registry (P @ concat (map ((#) sep) (take k segs))) = None)"
  show "pipeline self request =
      Some (con ((gate_request self request)(''trail'' \<mapsto> PList (map PStr segs))),
            (gate_request self request)(''trail'' \<mapsto> PList (map PStr segs)),
            auth_calls self @ [ConsumerHandle P])"
    using assms(1) select_consumer_below [of self registry "gate_request self request" P segs con
        "auth_calls self"] assms(2-4) a
    by (simp add: pipeline_authenticated)
next
  assume a: "segs \<noteq> [] \<and> (\<forall>s\<in>set segs. s \<noteq> [] \<and> sep \<notin> set s) \<and> P = [sep] \<and>
          gate_request self request ''path'' = Some (PStr (concat (map ((#) sep) segs))) \<and>
          (\<forall>k. 0 < k \<and> k \<le> length segs \<longrightarrow>
                registry (concat (map ((#) sep) (take k segs))) = None)"
  show "pipeline self request =
      Some (con ((gate_request self request)(''trail'' \<mapsto> PList (map PStr segs))),
            (gate_request self request)(''trail'' \<mapsto> PList (map PStr segs)),
            auth_calls self @ [ConsumerHandle P])"
    using assms(1) select_consumer_below_root [of self registry "gate_request self request" segs
        con "auth_calls self"] assms(2-4) a
    by (simp add: pipeline_authenticated)
qed

theorem dispatch_to_registered_prefix_witness:
  "pipeline (a_server (Some [(''a'', allow)]) [(''/secrets'', answer 200)])
     (a_request ''/secrets'') =
     Some (answer 200 ((a_request ''/secrets'')(''valid_auth'' \<mapsto> PBool True)),
           (a_request ''/secrets'')(''valid_auth'' \<mapsto> PBool True),
           [AuthHandle ''a'', ConsumerHandle ''/secrets'']) \<and>
   pipeline (a_server (Some [(''a'', allow)]) [(''/secrets'', answer 200)])
     (a_request ''/secrets/app1/key1'') =
     Some (answer 200 ((a_request ''/secrets/app1/key1'')(''valid_auth'' \<mapsto> PBool True,
                         ''trail'' \<mapsto> PList [PStr ''app1'', PStr ''key1''])),
           (a_request ''/secrets/app1/key1'')(''valid_auth'' \<mapsto> PBool True,
                         ''trail'' \<mapsto> PList [PStr ''app1'', PStr ''key1'']),
           [AuthHandle ''a'', ConsumerHandle ''/secrets'']) \<and>
   pipeline (a_server (Some [(''a'', allow)]) [(''/'', answer 200)])
     (a_request ''/app1/key1'') =
     Some (answer 200 ((a_request ''/app1/key1'')(''valid_auth'' \<mapsto> PBool True,
                         ''trail'' \<mapsto> PList [PStr ''app1'', PStr ''key1''])),
           (a_request ''/app1/key1'')(''valid_auth'' \<mapsto> PBool True,
                         ''trail'' \<mapsto> PList [PStr ''app1'', PStr ''key1'']),
           [AuthHandle ''a'', ConsumerHandle ''/''])"
proof -
  let ?S = "a_server (Some [(''a'', allow)]) [(''/secrets'', answer 200)]"
  let ?T = "a_server (Some [(''a'', allow)]) [(''/'', answer 200)]"
  have auth: "authenticated ?S (a_request p)" "authenticated ?T (a_request p)" for p
    by (simp_all add: authenticated_def a_server_def allow_def)
  have gate: "gate_request ?S (a_request p) = (a_request p)(''valid_auth'' \<mapsto> PBool True)"
    "gate_request ?T (a_request p) = (a_request p)(''valid_auth'' \<mapsto> PBool True)" for p
    by (simp_all add: gate_request_def a_server_def allow_def)
  have calls: "auth_calls ?S = [AuthHandle ''a'']" "auth_calls ?T = [AuthHandle ''a'']"
    by (simp_all add: auth_calls_def a_server_def)
  have cons: "consumers (srv_config ?S) = Some (map_of [(''/secrets'', answer 200)])"
    "consumers (srv_config ?T) = Some (map_of [(''/'', answer 200)])"
    by (simp_all add: a_server_def)
  have path: "a_request p ''path'' = Some (PStr p)" for p
    by (simp add: a_request_def a_parsed_def make_request_def)
  have two: "k = 1 \<or> k = 2" if "0 < k \<and> k \<le> length [''app1'', ''key1'']" for k
    using that by auto
  have free: "\<forall>k. 0 < k \<and> k \<le> length [''app1'', ''key1''] \<longrightarrow>
      map_of [(''/secrets'', answer 200)]
        (''/secrets'' @ concat (map ((#) sep) (take k [''app1'', ''key1'']))) = None"
  proof (intro allI impI)
    fix k assume "0 < k \<and> k \<le> length [''app1'', ''key1'']"
    then have "k = 1 \<or> k = 2" by (rule two)
    then show "map_of [(''/secrets'', answer 200)]
        (''/secrets'' @ concat (map ((#) sep) (take k [''app1'', ''key1'']))) = None"
      by (elim disjE) (simp_all add: sep_def)
  qed
  have free_root: "\<forall>k. 0 < k \<and> k \<le> length [''app1'', ''key1''] \<longrightarrow>
      map_of [(''/'', answer 200)]
        (concat (map ((#) sep) (take k [''app1'', ''key1'']))) = None"
  proof (intro allI impI)
    fix k assume "0 < k \<and> k \<le> length [''app1'', ''key1'']"
    then have "k = 1 \<or> k = 2" by (rule two)
    then show "map_of [(''/'', answer 200)]
        (concat (map ((#) sep) (take k [''app1'', ''key1'']))) = None"
      by (elim disjE) (simp_all add: sep_def)
  qed
  have segs: "\<forall>s\<in>set [''app1'', ''key1'']. s \<noteq> [] \<and> sep \<notin> set s"
    by (simp add: sep_def)
  have exact: "pipeline ?S (a_request ''/secrets'') =
      Some (answer 200 ((a_request ''/secrets'')(''valid_auth'' \<mapsto> PBool True)),
            (a_request ''/secrets'')(''valid_auth'' \<mapsto> PBool True),
            [AuthHandle ''a'', ConsumerHandle ''/secrets''])"
    using dispatch_to_registered_prefix [OF auth(1) cons(1), of "''/secrets''" "answer 200"
        "''/secrets''" "[]"]
    by (simp add: gate calls path os_path_isabs_def sep_def)
  have below: "pipeline ?S (a_request ''/secrets/app1/key1'') =
      Some (answer 200 ((a_request ''/secrets/app1/key1'')(''valid_auth'' \<mapsto> PBool True,
                          ''trail'' \<mapsto> PList [PStr ''app1'', PStr ''key1''])),
            (a_request ''/secrets/app1/key1'')(''valid_auth'' \<mapsto> PBool True,
                          ''trail'' \<mapsto> PList [PStr ''app1'', PStr ''key1'']),
            [AuthHandle ''a'', ConsumerHandle ''/secrets''])"
    using dispatch_to_registered_prefix [OF auth(1) cons(1), of "''/secrets''" "answer 200"
        "''/secrets/app1/key1''" "[''app1'', ''key1'']"] free segs
    by (simp add: gate calls path os_path_isabs_def sep_def)
  have root: "pipeline ?T (a_request ''/app1/key1'') =
      Some (answer 200 ((a_request ''/app1/key1'')(''valid_auth'' \<mapsto> PBool True,
                          ''trail'' \<mapsto> PList [PStr ''app1'', PStr ''key1''])),
            (a_request ''/app1/key1'')(''valid_auth'' \<mapsto> PBool True,
                          ''trail'' \<mapsto> PList [PStr ''app1'', PStr ''key1'']),
            [AuthHandle ''a'', ConsumerHandle ''/''])"
    using dispatch_to_registered_prefix [OF auth(2) cons(2), of "''/''" "answer 200"
        "''/app1/key1''" "[''app1'', ''key1'']"] free_root segs
    by (simp add: gate calls path os_path_isabs_def sep_def)
  from exact below root show ?thesis by simp
qed

text \<open>
  Claim C5, as stated, fails for a registered prefix that ends in a separator:
  \<open>os.path.split\<close> drops the separators at the end of the head, so the walk from
  \<open>/a//b\<close>, and from \<open>/a/b\<close>, tries \<open>/a\<close> and \<open>/\<close>, never \<open>/a/\<close>.
\<close>

theorem trailing_slash_prefix_unreachable:
  "map_of [(''/a/'', answer 200)] ''/a/'' = Some (answer 200) \<and>
   pipeline (a_server (Some [(''a'', allow)]) [(''/a/'', answer 200)])
     (a_request (''/a/'' @ ''/'' @ ''b'')) =
     Some (Inl (HTTPError 404), (a_request ''/a//b'')(''valid_auth'' \<mapsto> PBool True),
           [AuthHandle ''a'']) \<and>
   pipeline (a_server (Some [(''a'', allow)]) [(''/a/'', answer 200)])
     (a_request (''/a/'' @ ''b'')) =
     Some (Inl (HTTPError 404), (a_request ''/a/b'')(''valid_auth'' \<mapsto> PBool True),
           [AuthHandle ''a''])"
  by (simp add: gate_eval a_server_def a_request_def a_parsed_def allow_def path_eval
      consumer_loop.simps)

text \<open>
  Claim C3, as the code has it. With an absolute prefix \<open>P1\<close> and \<open>P2 = P1/x\<close> both
  registered, \<open>x\<close> a non-empty segment, an authenticated request for \<open>P2/y\<close> is
  dispatched to the consumer of \<open>P2\<close> with \<open>trail = [y]\<close>, and the consumer of \<open>P1\<close>
  is not called, provided \<open>P2/y\<close> is not registered itself.
\<close>

theorem deeper_prefix_preferred:
  assumes "authenticated self request"
    and "consumers (srv_config self) = Some registry"
    and "os_path_isabs P1" and "registry P1 = Some c1"
    and "x \<noteq> []" and "sep \<notin> set x" and "sep \<notin> set y"
    and "registry (P1 @ sep # x) = Some c2"
    and "gate_request self request ''path'' = Some (PStr (P1 @ sep # x @ sep # y))"
    and "registry (P1 @ sep # x @ sep # y) = None"
  shows "pipeline self request =
           Some (c2 ((gate_request self request)(''trail'' \<mapsto> PList [PStr y])),
                 (gate_request self request)(''trail'' \<mapsto> PList [PStr y]),
                 auth_calls self @ [ConsumerHandle (P1 @ sep # x)]) \<and>
         ConsumerHandle P1 \<notin> set (auth_calls self @ [ConsumerHandle (P1 @ sep # x)])"
proof -
  let ?P2 = "P1 @ sep # x"
  let ?G = "gate_request self request"
  from assms(3) have abs: "os_path_isabs (?P2 @ sep # y)"
    by (cases P1) (auto simp: os_path_isabs_def)
  have P2: "?P2 \<noteq> []" "last ?P2 \<noteq> sep"
    using assms(5,6) last_in_set by (simp, fastforce)
  have sp: "os_path_split (?P2 @ sep # y) = (?P2, y)"
    using os_path_split_snoc [of ?P2 y] P2 assms(7) by simp
  have ne: "?P2 @ sep # y \<noteq> []" "?P2 @ sep # y \<noteq> [sep]"
    by (simp, cases P1, simp_all)
  have "consumer_loop (Some registry) (?P2 @ sep # y) [] ?G (auth_calls self) =
        consumer_loop (Some registry) ?P2 [y] ?G (auth_calls self)"
    using consumer_loop_miss [of "?P2 @ sep # y" registry "[]" ?G "auth_calls self"] ne sp
      assms(10)
    by simp
  also have "\<dots> = Some (c2 (?G(''trail'' \<mapsto> PList [PStr y])), ?G(''trail'' \<mapsto> PList [PStr y]),
                         auth_calls self @ [ConsumerHandle ?P2])"
    using consumer_loop_hit [of ?P2 registry c2 "[y]" ?G "auth_calls self"] assms(8) by simp
  finally have "pipeline self request =
      Some (c2 (?G(''trail'' \<mapsto> PList [PStr y])), ?G(''trail'' \<mapsto> PList [PStr y]),
            auth_calls self @ [ConsumerHandle ?P2])"
    using assms(1,2,9) abs by (simp add: pipeline_authenticated select_consumer_def)
  moreover have "ConsumerHandle P1 \<notin> set (auth_calls self @ [ConsumerHandle ?P2])"
    by (auto simp: auth_calls_def split: option.splits)
  ultimately show ?thesis by simp
qed

theorem deeper_prefix_preferred_witness:
  "authenticated (a_server (Some [(''a'', allow)]) [(''/a'', answer 201), (''/a/x'', answer 202)])
     (a_request ''/a/x/y'') \<and>
   pipeline (a_server (Some [(''a'', allow)]) [(''/a'', answer 201), (''/a/x'', answer 202)])
     (a_request ''/a/x/y'') =
     Some (answer 202 ((a_request ''/a/x/y'')(''valid_auth'' \<mapsto> PBool True,
                         ''trail'' \<mapsto> PList [PStr ''y''])),
           (a_request ''/a/x/y'')(''valid_auth'' \<mapsto> PBool True,
                         ''trail'' \<mapsto> PList [PStr ''y'']),
           [AuthHandle ''a'', ConsumerHandle ''/a/x''])"
  using deeper_prefix_preferred
    [of "a_server (Some [(''a'', allow)]) [(''/a'', answer 201), (''/a/x'', answer 202)]"
      "a_request ''/a/x/y''" "map_of [(''/a'', answer 201), (''/a/x'', answer 202)]"
      "''/a''" "answer 201" "''x''" "''y''" "answer 202"]
  by (simp add: gate_eval a_server_def a_request_def a_parsed_def allow_def path_eval)

text \<open>
  Claim C3, as stated, fails in a registry that holds \<open>P2/y\<close> as well: the request goes
  to that consumer, with no trail.
\<close>

theorem deepest_registered_prefix_wins:
  "map_of [(''/a'', answer 201), (''/a/x'', answer 202), (''/a/x/y'', answer 203)] ''/a'' =
     Some (answer 201) \<and>
   map_of [(''/a'', answer 201), (''/a/x'', answer 202), (''/a/x/y'', answer 203)] ''/a/x'' =
     Some (answer 202) \<and>
   pipeline (a_server (Some [(''a'', allow)])
       [(''/a'', answer 201), (''/a/x'', answer 202), (''/a/x/y'', answer 203)])
     (a_request ''/a/x/y'') =
     Some (answer 203 ((a_request ''/a/x/y'')(''valid_auth'' \<mapsto> PBool True)),
           (a_request ''/a/x/y'')(''valid_auth'' \<mapsto> PBool True),
           [AuthHandle ''a'', ConsumerHandle ''/a/x/y''])"
  by (simp add: gate_eval a_server_def a_request_def a_parsed_def allow_def path_eval
      consumer_loop.simps)

subsection \<open>A path of two separators\<close>

text \<open>
  \<open>os.path.split('//')\<close> is \<open>('//', '')\<close>: on the path \<open>//\<close> the loop goes round with
  the same path for ever.
\<close>

lemma pipeline_double_slash:
  "pipeline (a_server (Some [(''a'', allow)]) [(''/secrets'', answer 200)])
     (a_request ''//'') = None"
proof -
  let ?S = "a_server (Some [(''a'', allow)]) [(''/secrets'', answer 200)]"
  have auth: "authenticated ?S (a_request ''//'')"
    by (simp add: authenticated_def a_server_def allow_def)
  have abs: "os_path_isabs ''//''" by (simp add: os_path_isabs_def sep_def)
  have rep: "''//'' = replicate 2 sep" by (simp add: sep_def numeral_2_eq_2)
  have "pipeline ?S (a_request ''//'') =
          consumer_loop (Some (map_of [(''/secrets'', answer 200)])) ''//'' []
            (gate_request ?S (a_request ''//'')) (auth_calls ?S)"
    using auth abs
    by (simp add: pipeline_authenticated select_consumer_def gate_request_def a_server_def
        allow_def a_request_def a_parsed_def make_request_def)
  also have "\<dots> = None"
    unfolding rep by (rule consumer_loop_diverges) (simp_all add: sep_def numeral_2_eq_2)
  finally show ?thesis .
qed

text \<open>
  Claim C6 on the code: the request for \<open>//\<close> (the path of the request target
  \<open>http://localhost//\<close>) is authenticated, its path is absolute and no registered
  prefix is an ancestor of it, and the pipeline does not return: there is no
  \<open>HTTPError(404)\<close>, and \<open>handle_one_request\<close> sends nothing.
\<close>

theorem double_slash_path_never_answered:
  "authenticated (a_server (Some [(''a'', allow)]) [(''/secrets'', answer 200)])
     (a_request ''//'') \<and>
   os_path_isabs ''//'' \<and>
   pipeline (a_server (Some [(''a'', allow)]) [(''/secrets'', answer 200)])
     (a_request ''//'') = None \<and>
   handle_one_request (a_server (Some [(''a'', allow)]) [(''/secrets'', answer 200)])
     \<lparr>raw_requestline = ''GET http://localhost// HTTP/1.0'',
      parsed_request = Some (a_parsed ''//'' []), rfile_rest = [],
      peer_creds = (4711, 1000, 1000)\<rparr> = None"
proof -
  let ?S = "a_server (Some [(''a'', allow)]) [(''/secrets'', answer 200)]"
  have auth: "authenticated ?S (a_request ''//'')"
    by (simp add: authenticated_def a_server_def allow_def)
  have abs: "os_path_isabs ''//''" by (simp add: os_path_isabs_def sep_def)
  have body: "parse_body (req_headers (a_parsed ''//'' [])) [] = (Inr None, [])"
    by (simp add: parse_body_def headers_get_empty a_parsed_def MAX_REQUEST_SIZE_def)
  have "pipeline ?S (make_request (4711, 1000, 1000) (a_parsed ''//'' []) None) = None"
    using pipeline_double_slash by (simp add: a_request_def)
  with body have "handle_one_request ?S
     \<lparr>raw_requestline = ''GET http://localhost// HTTP/1.0'',
      parsed_request = Some (a_parsed ''//'' []), rfile_rest = [],
      peer_creds = (4711, 1000, 1000)\<rparr> = None"
    by (simp add: handle_one_request_def)
  with auth abs pipeline_double_slash show ?thesis by simp
qed

subsection \<open>The request after an error\<close>

text \<open>
  Claim C10. When the pipeline ends with an exception and no consumer has been called
  (the 403 of the gate, the 400 of the path check, the 404 of the loop), the request
  dictionary is the one the authenticators left: the second half of the pipeline has
  not written to it, so it has a \<open>trail\<close> key only if it had one at the gate.
\<close>

theorem error_leaves_request_untouched:
  assumes "pipeline self request = Some (Inl e, request', calls)"
    and "\<forall>p. ConsumerHandle p \<notin> set calls"
  shows "request' = gate_request self request \<and>
         (gate_request self request ''trail'' = None \<longrightarrow> request' ''trail'' = None)"
proof -
  have "request' = gate_request self request"
  proof (cases "authenticators (srv_config self)")
    case None
    with assms(1) show ?thesis by (simp add: pipeline_def gate_request_def)
  next
    case (Some authers)
    obtain r request1 calls1 where
      r: "authenticate authers (map fst authers) request [] = (r, request1, calls1)"
      by (cases "authenticate authers (map fst authers) request []") auto
    with Some have g: "gate_request self request = request1" by (simp add: gate_request_def)
    show ?thesis
    proof (cases r)
      case (Some e')
      with \<open>authenticators (srv_config self) = Some authers\<close> r assms(1) g show ?thesis
        by (simp add: pipeline_def)
    next
      case None
      show ?thesis
      proof (cases "request1 ''valid_auth'' = Some (PBool True)")
        case False
        with None \<open>authenticators (srv_config self) = Some authers\<close> r assms(1) g show ?thesis
          by (simp add: pipeline_def)
      next
        case True
        with None \<open>authenticators (srv_config self) = Some authers\<close> r assms(1)
        have "select_consumer self request1 calls1 = Some (Inl e, request', calls)"
          by (simp add: pipeline_def)
        from select_consumer_result [OF this] assms(2) g show ?thesis by auto
      qed
    qed
  qed
  then show ?thesis by simp
qed

theorem error_leaves_request_untouched_witness:
  "pipeline (a_server (Some [(''a'', allow)]) [(''/secrets'', answer 200)])
     (a_request ''/other/key'') =
     Some (Inl (HTTPError 404), (a_request ''/other/key'')(''valid_auth'' \<mapsto> PBool True),
           [AuthHandle ''a'']) \<and>
   (\<forall>p. ConsumerHandle p \<notin> set [AuthHandle ''a'']) \<and>
   gate_request (a_server (Some [(''a'', allow)]) [(''/secrets'', answer 200)])
     (a_request ''/other/key'') ''trail'' = None \<and>
   ((a_request ''/other/key'')(''valid_auth'' \<mapsto> PBool True)) ''trail'' = None"
proof -
  let ?S = "a_server (Some [(''a'', allow)]) [(''/secrets'', answer 200)]"
  let ?G = "(a_request ''/other/key'')(''valid_auth'' \<mapsto> PBool True)"
  have run: "pipeline ?S (a_request ''/other/key'') =
               Some (Inl (HTTPError 404), ?G, [AuthHandle ''a''])"
    by (simp add: gate_eval a_server_def a_request_def a_parsed_def allow_def path_eval
        consumer_loop.simps)
  have nodispatch: "\<forall>p. ConsumerHandle p \<notin> set [AuthHandle ''a'']" by simp
  have gate: "gate_request ?S (a_request ''/other/key'') ''trail'' = None"
    by (simp add: gate_request_def a_server_def allow_def a_request_def make_request_def)
  from error_leaves_request_untouched [OF run nodispatch] run nodispatch gate
  show ?thesis by simp
qed

end
